theory Spec2Isabelle
  imports Main "HOL-Library.Sublist"
begin

section \<open>Python values used by ipguide.py\<close>

text \<open>
  Strings are modelled as ASCII text (\<^typ>\<open>string\<close>); Python's \<open>int\<close> is \<^typ>\<open>int\<close>, and
  the non-negative integers held by the \<open>ipaddress\<close> objects are \<^typ>\<open>nat\<close>.  Exceptions
  are values of the type \<open>error\<close>; a function that may raise returns \<open>error + 'a\<close>.
\<close>

datatype error = ValueError | IndexError | TypeError

text \<open>\<open>s.split(sep)\<close> for a one-character separator: always at least one part.\<close>

fun str_split :: "char \<Rightarrow> string \<Rightarrow> string list" where
  "str_split sep [] = [[]]"
| "str_split sep (c # cs) =
     (if c = sep then [] # str_split sep cs
      else (case str_split sep cs of [] \<Rightarrow> [[c]] | p # ps \<Rightarrow> (c # p) # ps))"

text \<open>\<open>s.startswith(p)\<close>.\<close>

definition startswith :: "string \<Rightarrow> string \<Rightarrow> bool" where
  "startswith s p = (take (length p) s = p)"

text \<open>\<open>xs[i]\<close> for a non-negative literal index: raises IndexError out of range.\<close>

definition index :: "'a list \<Rightarrow> nat \<Rightarrow> error + 'a" where
  "index xs i = (if i < length xs then Inr (xs ! i) else Inl IndexError)"

definition hex_digit :: "char \<Rightarrow> nat option" where
  "hex_digit c =
     map_of (zip ''0123456789abcdef'' [0, 1, 2, 3, 4, 5, 6, 7, 8, 9, 10, 11, 12, 13, 14, 15] @
             zip ''ABCDEF'' [10, 11, 12, 13, 14, 15]) c"

definition dec_digit :: "char \<Rightarrow> nat option" where
  "dec_digit c = map_of (zip ''0123456789'' [0, 1, 2, 3, 4, 5, 6, 7, 8, 9]) c"

text \<open>\<open>s.isascii() and s.isdigit()\<close>: non-empty, decimal digits only.\<close>

definition is_decimal :: "string \<Rightarrow> bool" where
  "is_decimal s = (s \<noteq> [] \<and> list_all (\<lambda>c. dec_digit c \<noteq> None) s)"

definition dec_value :: "string \<Rightarrow> nat" where
  "dec_value s = foldl (\<lambda>n c. 10 * n + (case dec_digit c of Some d \<Rightarrow> d | None \<Rightarrow> 0)) 0 s"

definition hex_value :: "string \<Rightarrow> nat" where
  "hex_value s = foldl (\<lambda>n c. 16 * n + (case hex_digit c of Some d \<Rightarrow> d | None \<Rightarrow> 0)) 0 s"

text \<open>
  \<open>int(s)\<close> on a string, base 10: surrounding ASCII whitespace is stripped, one sign is
  allowed, and single underscores may separate digits.  None stands for ValueError.
  (The interpreter's configurable limit on the number of digits is not modelled.)
\<close>

definition py_isspace :: "char \<Rightarrow> bool" where
  "py_isspace c = (c \<in> set [CHR 0x09, CHR 0x0A, CHR 0x0B, CHR 0x0C, CHR 0x0D, CHR '' ''])"

definition py_strip :: "string \<Rightarrow> string" where
  "py_strip s = rev (dropWhile py_isspace (rev (dropWhile py_isspace s)))"

definition py_digits :: "string \<Rightarrow> nat option" where
  "py_digits s =
     (let groups = str_split (CHR ''_'') s
      in if list_all is_decimal groups then Some (dec_value (concat groups)) else None)"

definition py_int :: "string \<Rightarrow> int option" where
  "py_int s =
     (case py_strip s of
        [] \<Rightarrow> None
      | c # cs \<Rightarrow>
          if c = CHR ''-'' then map_option (\<lambda>n. - int n) (py_digits cs)
          else if c = CHR ''+'' then map_option int (py_digits cs)
          else map_option int (py_digits (c # cs)))"

section \<open>The standard library's \<open>ipaddress.ip_network\<close> on strings\<close>

text \<open>
  A parsed network: its family, \<open>int(net.network_address)\<close> and \<open>net.prefixlen\<close>.
\<close>

datatype ipnet = IPv4Network nat nat | IPv6Network nat nat

fun network_address :: "ipnet \<Rightarrow> nat" where
  "network_address (IPv4Network a p) = a"
| "network_address (IPv6Network a p) = a"

fun prefixlen :: "ipnet \<Rightarrow> nat" where
  "prefixlen (IPv4Network a p) = p"
| "prefixlen (IPv6Network a p) = p"

text \<open>
  The library's own exceptions.  \<open>ip_network\<close> catches the first two and tries the other
  family; a network with host bits set is a plain ValueError and is not caught.
\<close>

datatype parse_error = AddressValueError | NetmaskValueError | HostBitsSet

definition parse_octet :: "string \<Rightarrow> nat option" where
  "parse_octet s =
     (if s = [] then None
      else if \<not> is_decimal s then None
      else if length s > 3 then None
      else if s \<noteq> ''0'' \<and> hd s = CHR ''0'' then None
      else if dec_value s > 255 then None
      else Some (dec_value s))"

definition v4_int_from_string :: "string \<Rightarrow> nat option" where
  "v4_int_from_string s =
     (if s = [] then None
      else let octets = str_split (CHR ''.'') s
           in if length octets \<noteq> 4 then None
              else map_option (foldl (\<lambda>n b. 256 * n + b) 0) (those (map parse_octet octets)))"

definition prefix_from_prefix_string :: "nat \<Rightarrow> string \<Rightarrow> nat option" where
  "prefix_from_prefix_string max_prefixlen s =
     (if \<not> is_decimal s then None
      else if dec_value s \<le> max_prefixlen then Some (dec_value s) else None)"

text \<open>Trailing zero bits of a non-zero number, at most \<open>bits\<close> of them.\<close>

fun trailing_zeroes :: "nat \<Rightarrow> nat \<Rightarrow> nat" where
  "trailing_zeroes 0 number = 0"
| "trailing_zeroes (Suc bits) number =
     (if odd number then 0 else Suc (trailing_zeroes bits (number div 2)))"

definition count_righthand_zero_bits :: "nat \<Rightarrow> nat \<Rightarrow> nat" where
  "count_righthand_zero_bits number bits =
     (if number = 0 then bits else trailing_zeroes bits number)"

definition prefix_from_ip_int :: "nat \<Rightarrow> nat option" where
  "prefix_from_ip_int ip_int =
     (let tz = count_righthand_zero_bits ip_int 32;
          p = 32 - tz
      in if ip_int div 2 ^ tz = 2 ^ p - 1 then Some p else None)"

definition prefix_from_ip_string :: "string \<Rightarrow> nat option" where
  "prefix_from_ip_string s =
     (case v4_int_from_string s of
        None \<Rightarrow> None
      | Some ip_int \<Rightarrow>
          (case prefix_from_ip_int ip_int of
             Some p \<Rightarrow> Some p
           | None \<Rightarrow> prefix_from_ip_int (2 ^ 32 - 1 - ip_int)))"

definition make_netmask_v4 :: "string \<Rightarrow> nat option" where
  "make_netmask_v4 m =
     (case prefix_from_prefix_string 32 m of
        Some p \<Rightarrow> Some p
      | None \<Rightarrow> prefix_from_ip_string m)"

text \<open>
  \<open>_split_addr_prefix\<close>: the text before the slash and, when there is one, the text
  after it; more than one slash is an AddressValueError.
\<close>

definition split_addr_prefix :: "string \<Rightarrow> (string \<times> string option) option" where
  "split_addr_prefix s =
     (case str_split (CHR ''/'') s of
        [a] \<Rightarrow> Some (a, None)
      | [a, m] \<Rightarrow> Some (a, Some m)
      | _ \<Rightarrow> None)"

definition IPv4Network_init :: "string \<Rightarrow> parse_error + ipnet" where
  "IPv4Network_init s =
     (case split_addr_prefix s of
        None \<Rightarrow> Inl AddressValueError
      | Some (addr, msk) \<Rightarrow>
          (case v4_int_from_string addr of
             None \<Rightarrow> Inl AddressValueError
           | Some packed \<Rightarrow>
               (case (case msk of None \<Rightarrow> Some 32 | Some m \<Rightarrow> make_netmask_v4 m) of
                  None \<Rightarrow> Inl NetmaskValueError
                | Some p \<Rightarrow>
                    if packed mod 2 ^ (32 - p) \<noteq> 0 then Inl HostBitsSet
                    else Inr (IPv4Network packed p))))"

definition parse_hextet :: "string \<Rightarrow> nat option" where
  "parse_hextet s =
     (if \<not> list_all (\<lambda>c. hex_digit c \<noteq> None) s then None
      else if length s > 4 then None
      else if s = [] then None
      else Some (hex_value s))"

text \<open>\<open>_split_scope_id\<close>: the address part of \<open>addr%scope\<close>; the scope id is not used.\<close>

definition split_scope_id :: "string \<Rightarrow> string option" where
  "split_scope_id s =
     (let addr = takeWhile (\<lambda>c. c \<noteq> CHR ''%'') s;
          rest = dropWhile (\<lambda>c. c \<noteq> CHR ''%'') s
      in case rest of
           [] \<Rightarrow> Some addr
         | _ # scope_id \<Rightarrow>
             if scope_id = [] \<or> CHR ''%'' \<in> set scope_id then None else Some addr)"

text \<open>\<open>IPv6Address._ip_int_from_string\<close>, in its steps.\<close>

definition hextets :: "string list \<Rightarrow> nat list option" where
  "hextets parts = those (map parse_hextet parts)"

definition shift_in :: "nat \<Rightarrow> nat list \<Rightarrow> nat" where
  "shift_in ip_int hs = foldl (\<lambda>n h. 65536 * n + h) ip_int hs"

text \<open>The last part when it is written as an IPv4 address: popped and replaced by two
  hextets.  The two new parts are non-empty; they are kept as placeholders in the list
  of parts and as their values in the second component.\<close>

definition v4_suffix :: "string list \<Rightarrow> (string list \<times> nat list) option" where
  "v4_suffix parts =
     (if CHR ''.'' \<in> set (last parts)
      then (case v4_int_from_string (last parts) of
              None \<Rightarrow> None
            | Some ipv4_int \<Rightarrow>
                Some (butlast parts @ [''x'', ''x''],
                      [ipv4_int div 65536 mod 65536, ipv4_int mod 65536]))
      else Some (parts, []))"

text \<open>The hextets of the parts \<open>ps\<close>, the last two of which are the placeholders when
  \<open>quad\<close> is not empty.\<close>

definition hextets_with :: "nat list \<Rightarrow> string list \<Rightarrow> nat list option" where
  "hextets_with quad ps =
     (if quad = [] then hextets ps
      else map_option (\<lambda>hs. hs @ quad) (hextets (take (length ps - 2) ps)))"

text \<open>With a \<open>::\<close> at index \<open>skip_index\<close> of the parts.\<close>

definition v6_with_skip :: "string list \<Rightarrow> nat list \<Rightarrow> nat \<Rightarrow> nat option" where
  "v6_with_skip parts quad skip_index =
     (let n = length parts;
          parts_hi = (if parts ! 0 = [] then skip_index - 1 else skip_index);
          parts_lo = (if parts ! (n - 1) = [] then n - skip_index - 1 - 1 else n - skip_index - 1)
      in if parts ! 0 = [] \<and> parts_hi \<noteq> 0 then None
         else if parts ! (n - 1) = [] \<and> parts_lo \<noteq> 0 then None
         else if 8 - (parts_hi + parts_lo) < 1 then None
         else (case hextets (take parts_hi parts) of
                 None \<Rightarrow> None
               | Some his \<Rightarrow>
                   (case hextets_with quad (drop (n - parts_lo) parts) of
                      None \<Rightarrow> None
                    | Some los \<Rightarrow>
                        Some (shift_in (shift_in 0 his * 65536 ^ (8 - (parts_hi + parts_lo))) los))))"

text \<open>Without \<open>::\<close>: exactly eight parts, none of them empty.\<close>

definition v6_without_skip :: "string list \<Rightarrow> nat list \<Rightarrow> nat option" where
  "v6_without_skip parts quad =
     (if length parts \<noteq> 8 then None
      else if parts ! 0 = [] then None
      else if parts ! (length parts - 1) = [] then None
      else map_option (shift_in 0) (hextets_with quad parts))"

definition v6_int_from_string :: "string \<Rightarrow> nat option" where
  "v6_int_from_string s =
     (if s = [] then None
      else if length (str_split (CHR '':'') s) < 3 then None
      else (case v4_suffix (str_split (CHR '':'') s) of
              None \<Rightarrow> None
            | Some (parts, quad) \<Rightarrow>
                if length parts > 9 then None
                else (case filter (\<lambda>i. parts ! i = []) [1..<length parts - 1] of
                        [] \<Rightarrow> v6_without_skip parts quad
                      | [skip_index] \<Rightarrow> v6_with_skip parts quad skip_index
                      | _ \<Rightarrow> None)))"

definition IPv6Network_init :: "string \<Rightarrow> parse_error + ipnet" where
  "IPv6Network_init s =
     (case split_addr_prefix s of
        None \<Rightarrow> Inl AddressValueError
      | Some (addr, msk) \<Rightarrow>
          (case (case split_scope_id addr of None \<Rightarrow> None | Some a \<Rightarrow> v6_int_from_string a) of
             None \<Rightarrow> Inl AddressValueError
           | Some packed \<Rightarrow>
               (case (case msk of None \<Rightarrow> Some 128 | Some m \<Rightarrow> prefix_from_prefix_string 128 m) of
                  None \<Rightarrow> Inl NetmaskValueError
                | Some p \<Rightarrow>
                    if packed mod 2 ^ (128 - p) \<noteq> 0 then Inl HostBitsSet
                    else Inr (IPv6Network packed p))))"

text \<open>\<open>ip_network(address)\<close> with the default \<open>strict=True\<close>; None stands for ValueError.\<close>

definition ip_network :: "string \<Rightarrow> ipnet option" where
  "ip_network address =
     (case IPv4Network_init address of
        Inr net \<Rightarrow> Some net
      | Inl HostBitsSet \<Rightarrow> None
      | Inl _ \<Rightarrow>
          (case IPv6Network_init address of
             Inr net \<Rightarrow> Some net
           | Inl _ \<Rightarrow> None))"

section \<open>NetTree\<close>

text \<open>
  The payload attached to a node.  \<open>NetTree.insert\<close> accepts any object; the only payloads
  ipguide.py stores are the tuples \<open>(network, asn, country)\<close>.  A non-empty tuple is
  true in a condition, so \<open>if here[2]\<close> holds exactly when a tuple is attached.
\<close>

type_synonym netrec = "string \<times> int \<times> string"

text \<open>A node is the Python list \<open>[child 0, child 1, data]\<close>; \<open>None\<close> is \<open>None\<close>.\<close>

datatype node = Node (child0: "node option") (child1: "node option") (data: "netrec option")

definition empty_node :: node where
  "empty_node = Node None None None"

text \<open>\<open>here[b]\<close> for a bit \<open>b\<close>; the character \<open>'1'\<close> is \<open>True\<close>.\<close>

fun child :: "node \<Rightarrow> bool \<Rightarrow> node option" where
  "child (Node l r x) b = (if b then r else l)"

text \<open>
  \<open>f"{n:0128b}"\<close> is \<open>bits 128 n\<close> when \<open>n < 2 ^ 128\<close>: the binary digits of \<open>n\<close>, the most
  significant first, padded with zeros to the width.
\<close>

fun bits :: "nat \<Rightarrow> nat \<Rightarrow> bool list" where
  "bits 0 n = []"
| "bits (Suc w) n = bits w (n div 2) @ [odd n]"

text \<open>
  Lines 49 to 55 and 68 to 73: parse the text, embed an IPv4 network into IPv6, and
  take the first \<open>prefixlen\<close> binary digits of the address.  The source embeds by
  formatting \<open>::ffff:<address>/<prefixlen + 96>\<close> and parsing that again; the library
  reads this text as the address \<open>0xffff * 2 ^ 32 + address\<close>, which has no host bits set
  when the IPv4 network has none, so the second parse cannot fail.
\<close>

fun embed :: "ipnet \<Rightarrow> ipnet" where
  "embed (IPv4Network a p) = IPv6Network (0xffff * 2 ^ 32 + a) (p + 96)"
| "embed (IPv6Network a p) = IPv6Network a p"

definition prefix_of :: "ipnet \<Rightarrow> bool list" where
  "prefix_of net = take (prefixlen (embed net)) (bits 128 (network_address (embed net)))"

definition canonical :: "string \<Rightarrow> error + bool list" where
  "canonical network =
     (case ip_network network of
        None \<Rightarrow> Inl ValueError
      | Some net \<Rightarrow> Inr (prefix_of net))"

text \<open>The loop of \<open>insert\<close> (lines 56 to 61), on the node \<open>here\<close>; the tree is returned updated.\<close>

fun insert_walk :: "bool list \<Rightarrow> netrec \<Rightarrow> node \<Rightarrow> node" where
  "insert_walk [] d (Node l r x) = Node l r (Some d)"
| "insert_walk (b # bs) d (Node l r x) =
     (if b
      then Node l (Some (insert_walk bs d (case r of None \<Rightarrow> empty_node | Some n \<Rightarrow> n))) x
      else Node (Some (insert_walk bs d (case l of None \<Rightarrow> empty_node | Some n \<Rightarrow> n))) r x)"

definition insert_net :: "string \<Rightarrow> netrec \<Rightarrow> node \<Rightarrow> error + node" where
  "insert_net network d tree =
     (case canonical network of
        Inl e \<Rightarrow> Inl e
      | Inr path \<Rightarrow> Inr (insert_walk path d tree))"

text \<open>
  The loop of \<open>search\<close> (lines 75 to 81) with its variable \<open>net\<close>: the node is looked at
  at the head of each round, before the next digit is followed, and the loop ends with
  the digits.
\<close>

fun search_walk :: "bool list \<Rightarrow> node \<Rightarrow> netrec option \<Rightarrow> netrec option" where
  "search_walk [] here net = net"
| "search_walk (b # bs) here net =
     (let net' = (case data here of Some d \<Rightarrow> Some d | None \<Rightarrow> net)
      in case child here b of
           None \<Rightarrow> net'
         | Some n \<Rightarrow> search_walk bs n net')"

definition search :: "node \<Rightarrow> string \<Rightarrow> error + netrec option" where
  "search tree network =
     (case canonical network of
        Inl e \<Rightarrow> Inl e
      | Inr path \<Rightarrow> Inr (search_walk path tree None))"

text \<open>The node addressed by a bit path, and the record attached there.\<close>

fun node_at :: "bool list \<Rightarrow> node \<Rightarrow> node option" where
  "node_at [] n = Some n"
| "node_at (b # bs) n = (case child n b of None \<Rightarrow> None | Some c \<Rightarrow> node_at bs c)"

definition data_at :: "bool list \<Rightarrow> node \<Rightarrow> netrec option" where
  "data_at p t = (case node_at p t of None \<Rightarrow> None | Some n \<Rightarrow> data n)"

section \<open>IPGuide\<close>

record asn_entry =
  name :: string
  country :: string
  networks :: "string list"

text \<open>\<open>self.database\<close>: the dictionary with the keys \<open>'network'\<close>, \<open>'asn'\<close> and \<open>'country'\<close>.\<close>

record database =
  db_network :: node
  db_asn :: "int \<rightharpoonup> asn_entry"
  db_country :: "string \<rightharpoonup> int list"

definition empty_database :: database where
  "empty_database = \<lparr>db_network = empty_node, db_asn = Map.empty, db_country = Map.empty\<rparr>"

definition private_networks :: "string list" where
  "private_networks = [''10.0.0.0/8'', ''127.0.0.0/8'', ''172.16.0.0/12'', ''192.168.0.0/16'',
              ''::1/128'', ''fc00::/7'', ''fe80::/10'']"

text \<open>Lines 146 and 147: \<open>for pnet in private: insert(pnet, (pnet, 0, '*'))\<close>.\<close>

fun insert_private :: "string list \<Rightarrow> node \<Rightarrow> error + node" where
  "insert_private [] tree = Inr tree"
| "insert_private (pnet # pnets) tree =
     (case insert_net pnet (pnet, 0, ''*'') tree of
        Inl e \<Rightarrow> Inl e
      | Inr tree' \<Rightarrow> insert_private pnets tree')"

text \<open>Lines 143 to 154, the header row.\<close>

definition seed_private :: "database \<Rightarrow> error + database" where
  "seed_private db =
     (case insert_private private_networks (db_network db) of
        Inl e \<Rightarrow> Inl e
      | Inr tree \<Rightarrow>
          Inr \<lparr>db_network = tree,
               db_asn = (db_asn db)(0 \<mapsto>
                  \<lparr>name = ''Locally routed network'', country = ''*'', networks = private_networks\<rparr>),
               db_country = (db_country db)(''*'' \<mapsto> [0])\<rparr>)"

text \<open>Lines 156 to 167, a data row whose fields \<open>row[0]\<close>, \<open>row[2]\<close>, \<open>row[3]\<close> and the ASN are given.\<close>

definition add_record :: "string \<Rightarrow> int \<Rightarrow> string \<Rightarrow> string \<Rightarrow> node \<Rightarrow> database \<Rightarrow> database" where
  "add_record net asn org cc tree db =
     (let asns = (if asn \<in> dom (db_asn db) then db_asn db
                  else (db_asn db)(asn \<mapsto> \<lparr>name = org, country = cc, networks = []\<rparr>));
          asns' = (case asns asn of
                     None \<Rightarrow> asns
                   | Some e \<Rightarrow> asns(asn \<mapsto> e\<lparr>networks := networks e @ [net]\<rparr>));
          countries = (if cc \<in> dom (db_country db) then db_country db
                       else (db_country db)(cc \<mapsto> []));
          countries' = (case countries cc of
                          None \<Rightarrow> countries
                        | Some l \<Rightarrow> countries(cc \<mapsto> l @ [asn]))
      in \<lparr>db_network = tree, db_asn = asns', db_country = countries'\<rparr>)"

text \<open>
  One round of the loop over the rows (lines 139 to 167).  Every step of a round that can
  raise comes before the round's first change to the database: \<open>row[0]\<close>, \<open>int(row[1])\<close>,
  \<open>row[3]\<close> (evaluated for the argument tuple) and the parse inside \<open>insert\<close>.  \<open>row[2]\<close> is read
  once \<open>row[3]\<close> has been.
\<close>

definition load_row :: "string list \<Rightarrow> database \<Rightarrow> error + database" where
  "load_row row db =
     (case index row 0 of
        Inl e \<Rightarrow> Inl e
      | Inr r0 \<Rightarrow>
          if r0 = ''network'' then seed_private db
          else
            (case index row 1 of
               Inl e \<Rightarrow> Inl e
             | Inr r1 \<Rightarrow>
                 (case py_int r1 of
                    None \<Rightarrow> Inl ValueError
                  | Some asn \<Rightarrow>
                      (case index row 3 of
                         Inl e \<Rightarrow> Inl e
                       | Inr r3 \<Rightarrow>
                           (case insert_net r0 (r0, asn, r3) (db_network db) of
                              Inl e \<Rightarrow> Inl e
                            | Inr tree \<Rightarrow> Inr (add_record r0 asn (row ! 2) r3 tree db))))))"

text \<open>
  The loop over the rows: the database as the loop left it, and the exception that ended
  it, if one did.
\<close>

fun load_rows :: "string list list \<Rightarrow> database \<Rightarrow> database \<times> error option" where
  "load_rows [] db = (db, None)"
| "load_rows (row # rows) db =
     (case load_row row db of
        Inl e \<Rightarrow> (db, Some e)
      | Inr db' \<Rightarrow> load_rows rows db')"

text \<open>
  The object: \<open>self.database\<close>, whether \<open>self.pickle\<close> is set, and the content of the pickle
  file (\<open>None\<close> when there is no such file).
\<close>

record ipguide =
  database :: "database option"
  use_pickle :: bool
  pickle_file :: "database option"

text \<open>
  \<open>load_database\<close> where it reads the CSV file (lines 132 to 171: the file exists and no
  pickle newer than it does); \<open>rows\<close> is what \<open>csv.reader\<close> yields.  \<open>self.database\<close> is
  assigned a new dictionary first and filled in place; the pickle is written after the
  loop.
\<close>

definition load_database :: "string list list \<Rightarrow> ipguide \<Rightarrow> ipguide \<times> error option" where
  "load_database rows self =
     (case load_rows rows empty_database of
        (db, Some e) \<Rightarrow> (self\<lparr>database := Some db\<rparr>, Some e)
      | (db, None) \<Rightarrow>
          (self\<lparr>database := Some db,
                pickle_file := (if use_pickle self then Some db else pickle_file self)\<rparr>, None))"


text \<open>The queries, on the dictionary \<open>self.database\<close>.\<close>

definition find_network :: "database \<Rightarrow> string \<Rightarrow> error + netrec option" where
  "find_network db network = search (db_network db) network"

definition networks_for_asn :: "database \<Rightarrow> int \<Rightarrow> string list" where
  "networks_for_asn db asn =
     (case db_asn db asn of None \<Rightarrow> [] | Some e \<Rightarrow> networks e)"

definition find_asn :: "database \<Rightarrow> int \<Rightarrow> asn_entry option" where
  "find_asn db asn = db_asn db asn"

definition find_country :: "database \<Rightarrow> string \<Rightarrow> int list" where
  "find_country db cc = (case db_country db cc of None \<Rightarrow> [] | Some l \<Rightarrow> l)"

text \<open>
  The argument of \<open>get_networks\<close>: one string, or a list of strings.
\<close>

datatype spec = Single string | Several "string list"

text \<open>The loop of \<open>get_networks\<close> (lines 203 to 208) with its variable \<open>res\<close>.\<close>

fun expand :: "database \<Rightarrow> string list \<Rightarrow> string list \<Rightarrow> error + string list" where
  "expand db [] res = Inr res"
| "expand db (s # ss) res =
     (if startswith s ''ASN:''
      then (case index (str_split (CHR '':'') s) 1 of
              Inl e \<Rightarrow> Inl e
            | Inr field \<Rightarrow>
                (case py_int field of
                   None \<Rightarrow> Inl ValueError
                 | Some asn \<Rightarrow> expand db ss (res @ networks_for_asn db asn)))
      else expand db ss (res @ [s]))"

text \<open>\<open>get_networks\<close>: \<open>except Exception\<close> returns \<open>spec\<close>, which is a list by then.\<close>

definition get_networks :: "database \<Rightarrow> spec \<Rightarrow> string list" where
  "get_networks db sp =
     (let specs = (case sp of Single s \<Rightarrow> [s] | Several ss \<Rightarrow> ss)
      in case expand db specs [] of
           Inr res \<Rightarrow> res
         | Inl e \<Rightarrow> specs)"

section \<open>Notions used to state the properties\<close>

text \<open>Inserting a list of networks with their records, in order, as the loader does.\<close>

fun insert_all :: "(string \<times> netrec) list \<Rightarrow> node \<Rightarrow> error + node" where
  "insert_all [] tree = Inr tree"
| "insert_all ((network, d) # entries) tree =
     (case insert_net network d tree of
        Inl e \<Rightarrow> Inl e
      | Inr tree' \<Rightarrow> insert_all entries tree')"

text \<open>A new \<open>NetTree\<close>, the insertions, and then one search.\<close>

definition search_after :: "(string \<times> netrec) list \<Rightarrow> string \<Rightarrow> error + netrec option" where
  "search_after entries address =
     (case insert_all entries empty_node of
        Inl e \<Rightarrow> Inl e
      | Inr tree \<Rightarrow> search tree address)"

text \<open>
  A network contains another network (or a host address, parsed as a network of full
  length) when it is no longer and the other address shares its first \<open>prefixlen\<close> bits,
  both taken in the 128-bit space.
\<close>

definition contains :: "ipnet \<Rightarrow> ipnet \<Rightarrow> bool" where
  "contains n m =
     (prefixlen (embed n) \<le> prefixlen (embed m) \<and>
      take (prefixlen (embed n)) (bits 128 (network_address (embed m))) =
      take (prefixlen (embed n)) (bits 128 (network_address (embed n))))"


text \<open>The block \<open>::ffff:0:0/96\<close> of the IPv4-mapped addresses.\<close>

definition mapped_block :: ipnet where
  "mapped_block = IPv6Network (0xffff * 2 ^ 32) 96"


text \<open>The header row is the row whose first field is \<open>network\<close>.\<close>

definition is_header :: "string list \<Rightarrow> bool" where
  "is_header row = (index row 0 = Inr ''network'')"

text \<open>
  A row on which a round of the loop raises: an empty row, or a data row with fewer than
  four fields, with an ASN that \<open>int\<close> rejects, or with a network that \<open>ip_network\<close> rejects.
\<close>

definition malformed :: "string list \<Rightarrow> bool" where
  "malformed row =
     (row = [] \<or>
      (\<not> is_header row \<and>
         (length row < 4 \<or> py_int (row ! 1) = None \<or> ip_network (row ! 0) = None)))"

text \<open>The networks of the data rows attributed to an ASN, in the order of the rows.\<close>

definition row_asn :: "string list \<Rightarrow> int option" where
  "row_asn row =
     (if is_header row then None
      else case index row 1 of Inl e \<Rightarrow> None | Inr field \<Rightarrow> py_int field)"

definition observed :: "string list list \<Rightarrow> int \<Rightarrow> string list" where
  "observed rows asn = map hd (filter (\<lambda>row. row_asn row = Some asn) rows)"

text \<open>What one specifier stands for: the ASN written after \<open>ASN:\<close>, and its expansion.\<close>

definition asn_of :: "string \<Rightarrow> int option" where
  "asn_of s =
     (case index (str_split (CHR '':'') s) 1 of
        Inl e \<Rightarrow> None
      | Inr field \<Rightarrow> py_int field)"

definition expansion :: "database \<Rightarrow> string \<Rightarrow> string list" where
  "expansion db s =
     (if startswith s ''ASN:''
      then (case asn_of s of None \<Rightarrow> [] | Some asn \<Rightarrow> networks_for_asn db asn)
      else [s])"

text \<open>
  A query method called on an object: \<open>self.database[...]\<close> is a TypeError while
  \<open>self.database\<close> is \<open>None\<close>.
\<close>

definition query :: "(database \<Rightarrow> 'k \<Rightarrow> 'a) \<Rightarrow> ipguide \<Rightarrow> 'k \<Rightarrow> error + 'a" where
  "query method self k =
     (case database self of
        None \<Rightarrow> Inl TypeError
      | Some db \<Rightarrow> Inr (method db k))"

text \<open>The tree after the seven fixed networks have been inserted (they all parse).\<close>

definition seeded_tree :: "node \<Rightarrow> node" where
  "seeded_tree t =
     insert_walk (prefix_of (IPv6Network 338288524927261089654018896841347694592 10)) (''fe80::/10'', 0, ''*'')
      (insert_walk (prefix_of (IPv6Network 334965454937798799971759379190646833152 7)) (''fc00::/7'', 0, ''*'')
       (insert_walk (prefix_of (IPv6Network 1 128)) (''::1/128'', 0, ''*'')
        (insert_walk (prefix_of (IPv4Network 3232235520 16)) (''192.168.0.0/16'', 0, ''*'')
         (insert_walk (prefix_of (IPv4Network 2886729728 12)) (''172.16.0.0/12'', 0, ''*'')
          (insert_walk (prefix_of (IPv4Network 2130706432 8)) (''127.0.0.0/8'', 0, ''*'')
           (insert_walk (prefix_of (IPv4Network 167772160 8)) (''10.0.0.0/8'', 0, ''*'') t))))))"

text \<open>
  The index holds the synthetic entry of the private ranges: ASN 0 is registered under its
  name with the country \<open>*\<close>, its list of networks begins with the seven fixed ranges, and
  the list of the country \<open>*\<close> has the ASN 0.
\<close>

definition seeded :: "database \<Rightarrow> bool" where
  "seeded db =
     ((case find_asn db 0 of
         None \<Rightarrow> False
       | Some e \<Rightarrow> name e = ''Locally routed network'' \<and> country e = ''*'' \<and>
                   prefix private_networks (networks e)) \<and>
      0 \<in> set (find_country db ''*''))"

text \<open>
  A small table: a header row, two data rows, and the first data row once more; the
  same table with a malformed ASN in its last row; and an object before its first load.
\<close>

definition header_row :: "string list" where
  "header_row = [''network'', ''asn'', ''organization'', ''country'']"

definition data_rows :: "string list list" where
  "data_rows = [[''1.2.3.0/24'', ''100'', ''ExampleOrg'', ''US''],
                [''1.2.3.128/25'', ''200'', ''SubOrg'', ''US''],
                [''1.2.3.0/24'', ''100'', ''ExampleOrg'', ''US'']]"

definition example_rows :: "string list list" where
  "example_rows = header_row # data_rows"


definition new_object :: ipguide where
  "new_object = \<lparr>database = None, use_pickle = False, pickle_file = None\<rparr>"

text \<open>The object that the constructor returns for the small table.\<close>

definition example_object :: ipguide where
  "example_object = fst (load_database example_rows new_object)"

section \<open>The walk through the tree\<close>

lemma node_at_empty: "node_at p empty_node = (if p = [] then Some empty_node else None)"
  by (cases p) (simp_all add: empty_node_def)

lemma data_at_empty: "data_at p empty_node = None"
  by (simp add: data_at_def node_at_empty) (simp add: empty_node_def)

lemma data_at_Nil: "data_at [] t = data t"
  by (simp add: data_at_def)

lemma data_at_Cons:
  "data_at (b # bs) t = (case child t b of None \<Rightarrow> None | Some c \<Rightarrow> data_at bs c)"
  by (simp add: data_at_def split: option.splits)

lemma node_at_insert_walk_off:
  "\<not> prefix p q \<Longrightarrow> node_at p (insert_walk q d t) = node_at p t"
proof (induction q arbitrary: p t)
  case Nil
  then show ?case by (cases t; cases p) simp_all
next
  case (Cons b bs)
  obtain l r x where t: "t = Node l r x" by (cases t)
  obtain c cs where p: "p = c # cs" using Cons.prems by (cases p) auto
  show ?case
  proof (cases "c = b")
    case True
    with Cons.prems p have np: "\<not> prefix cs bs" by simp
    then have ne: "cs \<noteq> []" by auto
    show ?thesis
      using Cons.IH [OF np] ne True
      by (cases r; cases l) (simp_all add: t p node_at_empty)
  next
    case False
    then show ?thesis by (auto simp: t p)
  qed
qed

lemma node_at_insert_walk_on:
  "prefix p q \<Longrightarrow> node_at p (insert_walk q d t) \<noteq> None"
proof (induction q arbitrary: p t)
  case Nil
  then show ?case by simp
next
  case (Cons b bs)
  obtain l r x where t: "t = Node l r x" by (cases t)
  show ?case
  proof (cases p)
    case Nil
    then show ?thesis by simp
  next
    case (Cons c cs)
    with Cons.prems have "c = b" "prefix cs bs" by simp_all
    then show ?thesis using Cons.IH [of cs] by (simp add: t Cons)
  qed
qed

lemma data_at_insert_walk_same: "data_at q (insert_walk q d t) = Some d"
proof (induction q arbitrary: t)
  case Nil
  then show ?case by (cases t) (simp add: data_at_Nil)
next
  case (Cons b bs)
  then show ?case by (cases t) (simp add: data_at_Cons)
qed

lemma data_at_insert_walk_other:
  "p \<noteq> q \<Longrightarrow> data_at p (insert_walk q d t) = data_at p t"
proof (induction q arbitrary: p t)
  case Nil
  then show ?case by (cases t; cases p) (simp_all add: data_at_Cons)
next
  case (Cons b bs)
  obtain l r x where t: "t = Node l r x" by (cases t)
  show ?case
  proof (cases p)
    case Nil
    then show ?thesis by (simp add: t data_at_Nil)
  next
    case p: (Cons c cs)
    show ?thesis
    proof (cases "c = b")
      case True
      with Cons.prems p have ne: "cs \<noteq> bs" by simp
      show ?thesis
        using Cons.IH [OF ne] True
        by (auto simp: t p data_at_Cons data_at_empty split: option.splits)
    next
      case False
      then show ?thesis by (auto simp: t p data_at_Cons)
    qed
  qed
qed


lemma search_walk_none:
  "(\<And>k. k < length bs \<Longrightarrow> data_at (take k bs) t = None) \<Longrightarrow> search_walk bs t acc = acc"
proof (induction bs arbitrary: t acc)
  case Nil
  then show ?case by simp
next
  case (Cons b bs)
  from Cons.prems [of 0] have d: "data t = None" by (simp add: data_at_Nil)
  show ?case
  proof (cases "child t b")
    case None
    with d show ?thesis by simp
  next
    case (Some c)
    have "search_walk bs c acc = acc"
    proof (rule Cons.IH)
      fix k assume "k < length bs"
      with Cons.prems [of "Suc k"] Some show "data_at (take k bs) c = None"
        by (simp add: data_at_Cons)
    qed
    with d Some show ?thesis by simp
  qed
qed


lemma search_walk_found:
  "search_walk bs t acc = Some d \<Longrightarrow>
   acc = Some d \<or> (\<exists>k<length bs. data_at (take k bs) t = Some d)"
proof (induction bs arbitrary: t acc)
  case Nil
  then show ?case by simp
next
  case (Cons b bs)
  let ?acc = "case data t of Some d \<Rightarrow> Some d | None \<Rightarrow> acc"
  have acc: "?acc = Some d \<Longrightarrow> acc = Some d \<or> data_at (take 0 (b # bs)) t = Some d"
    by (auto simp: data_at_Nil split: option.splits)
  show ?case
  proof (cases "child t b")
    case None
    with Cons.prems have "?acc = Some d" by (simp add: Let_def)
    with acc show ?thesis by auto
  next
    case (Some c)
    with Cons.prems have "search_walk bs c ?acc = Some d" by (simp add: Let_def)
    from Cons.IH [OF this] show ?thesis
    proof
      assume "?acc = Some d"
      with acc show ?thesis by auto
    next
      assume "\<exists>k<length bs. data_at (take k bs) c = Some d"
      then obtain k where "k < length bs" "data_at (take k bs) c = Some d" by blast
      with Some have "Suc k < length (b # bs)" "data_at (take (Suc k) (b # bs)) t = Some d"
        by (simp_all add: data_at_Cons)
      then show ?thesis by blast
    qed
  qed
qed

lemma insert_net_canonical:
  "canonical network = Inr q \<Longrightarrow> insert_net network d t = Inr (insert_walk q d t)"
  by (simp add: insert_net_def)

lemma search_canonical:
  "canonical network = Inr q \<Longrightarrow> search t network = Inr (search_walk q t None)"
  by (simp add: search_def)

lemma canonical_ip_network:
  "ip_network network = Some net \<Longrightarrow> canonical network = Inr (prefix_of net)"
  by (simp add: canonical_def)

section \<open>Bit prefixes\<close>

lemma length_bits: "length (bits w n) = w"
  by (induction w arbitrary: n) simp_all

lemma take_bits: "take k (bits (k + m) n) = bits k (n div 2 ^ m)"
proof (induction m arbitrary: n)
  case 0
  show ?case using length_bits [of k n] by simp
next
  case (Suc m)
  have "take k (bits (k + Suc m) n) = take k (bits (k + m) (n div 2))"
    by (simp add: length_bits)
  also have "\<dots> = bits k (n div 2 div 2 ^ m)" by (rule Suc.IH)
  also have "n div 2 div 2 ^ m = n div 2 ^ Suc m" by (simp add: div_mult2_eq)
  finally show ?case .
qed

lemma take_bits_128: "k \<le> 128 \<Longrightarrow> take k (bits 128 n) = bits k (n div 2 ^ (128 - k))"
  using take_bits [of k "128 - k" n] by simp

lemma length_prefix_of: "length (prefix_of n) = min (prefixlen (embed n)) 128"
  by (simp add: prefix_of_def length_bits)

lemma prefix_of_bits:
  "prefixlen (embed n) \<le> 128 \<Longrightarrow>
   prefix_of n = bits (prefixlen (embed n)) (network_address (embed n) div 2 ^ (128 - prefixlen (embed n)))"
  by (simp add: prefix_of_def take_bits_128)


lemma prefix_contains:
  assumes "prefix (prefix_of n) (prefix_of m)" and "prefixlen (embed n) \<le> 128"
  shows "contains n m"
proof -
  let ?p = "prefixlen (embed n)" and ?q = "prefixlen (embed m)"
  from assms(1) have "length (prefix_of n) \<le> length (prefix_of m)" by (rule prefix_length_le)
  with assms(2) have pq: "?p \<le> ?q" by (simp add: length_prefix_of)
  from assms(1) have "prefix_of n = take (length (prefix_of n)) (prefix_of m)"
    by (auto simp: prefix_def)
  also have "\<dots> = take ?p (bits 128 (network_address (embed m)))"
    using pq assms(2) by (simp add: prefix_of_def length_bits min_def)
  finally show ?thesis using pq by (simp add: contains_def prefix_of_def)
qed



text \<open>A record at the node where the search path ends is not returned.\<close>

lemma search_walk_own_path:
  "search_walk q (insert_walk q d empty_node) None = None"
proof (rule search_walk_none)
  fix k assume "k < length q"
  then have "length (take k q) \<noteq> length q" by simp
  then have "take k q \<noteq> q" by auto
  then show "data_at (take k q) (insert_walk q d empty_node) = None"
    by (simp add: data_at_insert_walk_other data_at_empty)
qed

section \<open>What \<open>ip_network\<close> returns\<close>












section \<open>Parsed texts\<close>

lemmas parse_defs = ip_network_def IPv4Network_init_def IPv6Network_init_def split_addr_prefix_def
  v4_int_from_string_def parse_octet_def is_decimal_def dec_digit_def dec_value_def
  make_netmask_v4_def prefix_from_prefix_string_def prefix_from_ip_string_def
  split_scope_id_def v6_int_from_string_def v4_suffix_def hextets_with_def hextets_def
  v6_with_skip_def v6_without_skip_def parse_hextet_def hex_digit_def hex_value_def shift_in_def

lemma ip_network_10_8: "ip_network ''10.0.0.0/8'' = Some (IPv4Network 167772160 8)"
  by (simp add: parse_defs)
lemma ip_network_loopback6_net: "ip_network ''::1/128'' = Some (IPv6Network 1 128)"
  by (simp add: parse_defs)
lemma ip_network_loopback6: "ip_network ''::1'' = Some (IPv6Network 1 128)"
  by (simp add: parse_defs)
lemma ip_network_8888_32: "ip_network ''8.8.8.8/32'' = Some (IPv4Network 134744072 32)"
  by (simp add: parse_defs)
lemma ip_network_8888: "ip_network ''8.8.8.8'' = Some (IPv4Network 134744072 32)"
  by (simp add: parse_defs)

lemma search_after_single:
  "ip_network network = Some n \<Longrightarrow> ip_network address = Some m \<Longrightarrow>
   search_after [(network, d)] address
     = Inr (search_walk (prefix_of m) (insert_walk (prefix_of n) d empty_node) None)"
  by (simp add: search_after_def insert_net_def search_def canonical_def)

section \<open>The claims about NetTree\<close>

text \<open>
  C9.  Inserting a network with a record attaches the record at the node addressed by the
  network's canonical bit path and changes nothing else: the record at every other path
  is what it was, and so is the whole subtree (nodes, children and records) at every path
  that is not on the way to that node.  Every node on the way exists afterwards.
\<close>

theorem insert_frame:
  assumes "canonical network = Inr q"
  shows "\<exists>t'. insert_net network d t = Inr t' \<and>
              data_at q t' = Some d \<and>
              (\<forall>p. p \<noteq> q \<longrightarrow> data_at p t' = data_at p t) \<and>
              (\<forall>p. \<not> prefix p q \<longrightarrow> node_at p t' = node_at p t) \<and>
              (\<forall>p. prefix p q \<longrightarrow> node_at p t' \<noteq> None)"
proof (intro exI conjI allI impI)
  show "insert_net network d t = Inr (insert_walk q d t)"
    using assms by (rule insert_net_canonical)
  show "data_at q (insert_walk q d t) = Some d"
    by (rule data_at_insert_walk_same)
  show "data_at p (insert_walk q d t) = data_at p t" if "p \<noteq> q" for p
    using that by (rule data_at_insert_walk_other)
  show "node_at p (insert_walk q d t) = node_at p t" if "\<not> prefix p q" for p
    using that by (rule node_at_insert_walk_off)
  show "node_at p (insert_walk q d t) \<noteq> None" if "prefix p q" for p
    using that by (rule node_at_insert_walk_on)
qed

theorem insert_frame_witness:
  "canonical ''10.0.0.0/8'' = Inr (prefix_of (IPv4Network 167772160 8)) \<and>
   (\<exists>t'. insert_net ''10.0.0.0/8'' (''10.0.0.0/8'', 0, ''*'') empty_node = Inr t' \<and>
         data_at (prefix_of (IPv4Network 167772160 8)) t' = Some (''10.0.0.0/8'', 0, ''*'') \<and>
         data_at [] t' = data_at [] empty_node \<and>
         node_at (replicate 105 True) t' = node_at (replicate 105 True) empty_node \<and>
         node_at [] t' \<noteq> None)"
proof -
  let ?q = "prefix_of (IPv4Network 167772160 8)"
  have c: "canonical ''10.0.0.0/8'' = Inr ?q"
    by (rule canonical_ip_network [OF ip_network_10_8])
  have len: "length ?q = 104" by (simp add: length_prefix_of)
  from len have ne: "[] \<noteq> ?q" by auto
  have off: "\<not> prefix (replicate 105 True) ?q"
    using len prefix_length_le [of "replicate 105 True" ?q] by auto
  from insert_frame [OF c, of "(''10.0.0.0/8'', 0, ''*'')" empty_node]
  obtain t' where t': "insert_net ''10.0.0.0/8'' (''10.0.0.0/8'', 0, ''*'') empty_node = Inr t'"
    "data_at ?q t' = Some (''10.0.0.0/8'', 0, ''*'')"
    "\<forall>p. p \<noteq> ?q \<longrightarrow> data_at p t' = data_at p empty_node"
    "\<forall>p. \<not> prefix p ?q \<longrightarrow> node_at p t' = node_at p empty_node"
    "\<forall>p. prefix p ?q \<longrightarrow> node_at p t' \<noteq> None"
    by blast
  from t'(3) ne have "data_at [] t' = data_at [] empty_node" by blast
  moreover from t'(4) off
  have "node_at (replicate 105 True) t' = node_at (replicate 105 True) empty_node" by blast
  moreover from t'(5) have "node_at [] t' \<noteq> None" by (simp del: node_at.simps)
  ultimately show ?thesis using c t'(1,2) by blast
qed






lemma data_at_insert_walk:
  "data_at p (insert_walk q d t) = (if p = q then Some d else data_at p t)"
  by (simp add: data_at_insert_walk_same data_at_insert_walk_other)






lemma mapped_block_embed: "embed mapped_block = mapped_block"
  by (simp add: mapped_block_def)






lemma ip_network_fe80: "ip_network ''fe80::/10'' = Some (IPv6Network 338288524927261089654018896841347694592 10)"
  by (simp add: parse_defs)





lemma ip_network_127_8: "ip_network ''127.0.0.0/8'' = Some (IPv4Network 2130706432 8)"
  by (simp add: parse_defs)
lemma ip_network_172_16_12: "ip_network ''172.16.0.0/12'' = Some (IPv4Network 2886729728 12)"
  by (simp add: parse_defs)
lemma ip_network_192_168_16: "ip_network ''192.168.0.0/16'' = Some (IPv4Network 3232235520 16)"
  by (simp add: parse_defs)
lemma ip_network_fc00: "ip_network ''fc00::/7'' = Some (IPv6Network 334965454937798799971759379190646833152 7)"
  by (simp add: parse_defs)
lemma ip_network_1_2_3_24: "ip_network ''1.2.3.0/24'' = Some (IPv4Network 16909056 24)"
  by (simp add: parse_defs)
lemma ip_network_1_2_3_128_25: "ip_network ''1.2.3.128/25'' = Some (IPv4Network 16909184 25)"
  by (simp add: parse_defs)

lemmas int_defs = py_int_def py_strip_def py_isspace_def py_digits_def is_decimal_def
  dec_digit_def dec_value_def

lemma py_int_0: "py_int ''0'' = Some 0"
  by (simp add: int_defs)
lemma py_int_100: "py_int ''100'' = Some 100"
  by (simp add: int_defs)
lemma py_int_200: "py_int ''200'' = Some 200"
  by (simp add: int_defs)
lemma py_int_asn: "py_int ''asn'' = None"
  by (simp add: int_defs)

section \<open>The loader\<close>

lemma insert_private_eq: "insert_private private_networks t = Inr (seeded_tree t)"
  unfolding private_networks_def seeded_tree_def insert_private.simps
  by (simp add: insert_net_def canonical_def ip_network_10_8 ip_network_127_8 ip_network_172_16_12
      ip_network_192_168_16 ip_network_loopback6_net ip_network_fc00 ip_network_fe80
      del: One_nat_def)

lemma seed_private_eq:
  "seed_private db =
     Inr \<lparr>db_network = seeded_tree (db_network db),
          db_asn = (db_asn db)(0 \<mapsto>
             \<lparr>name = ''Locally routed network'', country = ''*'', networks = private_networks\<rparr>),
          db_country = (db_country db)(''*'' \<mapsto> [0])\<rparr>"
  by (simp add: seed_private_def insert_private_eq)

lemma load_row_header: "is_header row \<Longrightarrow> load_row row db = seed_private db"
  by (simp add: load_row_def is_header_def)

lemma is_header_iff: "is_header row \<longleftrightarrow> (\<exists>rest. row = ''network'' # rest)"
  by (cases row) (auto simp: is_header_def index_def)

lemma load_row_data:
  assumes "\<not> is_header row" and "load_row row db = Inr db'"
  shows "\<exists>net field org cc rest asn n.
           row = net # field # org # cc # rest \<and> py_int field = Some asn \<and>
           ip_network net = Some n \<and>
           db' = add_record net asn org cc (insert_walk (prefix_of n) (net, asn, cc) (db_network db)) db"
proof -
  from assms obtain net field org cc rest where row: "row = net # field # org # cc # rest"
    by (cases row rule: list.exhaust; cases "tl row"; cases "tl (tl row)"; cases "tl (tl (tl row))")
       (auto simp: load_row_def index_def is_header_def split: if_splits option.splits sum.splits)
  with assms have nh: "net \<noteq> ''network''" by (simp add: is_header_iff)
  from assms(2) row nh obtain asn where asn: "py_int field = Some asn"
    by (auto simp: load_row_def index_def split: option.splits)
  from assms(2) row nh asn obtain n where n: "ip_network net = Some n"
    by (auto simp: load_row_def index_def insert_net_def canonical_def split: option.splits)
  from assms(2) row nh asn n
  have "db' = add_record net asn org cc (insert_walk (prefix_of n) (net, asn, cc) (db_network db)) db"
    by (simp add: load_row_def index_def insert_net_def canonical_def)
  with row asn n show ?thesis by blast
qed

lemma load_row_malformed: "malformed row \<longleftrightarrow> (\<exists>e. load_row row db = Inl e)"
proof (cases "is_header row")
  case True
  then show ?thesis
    by (auto simp: malformed_def load_row_header seed_private_eq is_header_iff)
next
  case nh: False
  show ?thesis
  proof (cases "length row < 4")
    case True
    then have "malformed row" using nh by (auto simp: malformed_def)
    moreover from True nh have "\<exists>e. load_row row db = Inl e"
      by (auto simp: load_row_def index_def is_header_def split: option.splits)
    ultimately show ?thesis by simp
  next
    case False
    then obtain net field org cc rest where row: "row = net # field # org # cc # rest"
      by (cases row rule: list.exhaust; cases "tl row"; cases "tl (tl row)"; cases "tl (tl (tl row))")
         auto
    with nh have "net \<noteq> ''network''" by (simp add: is_header_iff)
    then show ?thesis using nh
      by (auto simp: malformed_def row load_row_def index_def insert_net_def canonical_def
          split: option.splits)
  qed
qed

lemma load_rows_complete:
  "snd (load_rows rows db) = None \<longleftrightarrow> (\<forall>row\<in>set rows. \<not> malformed row)"
proof (induction rows arbitrary: db)
  case Nil
  then show ?case by simp
next
  case (Cons row rows)
  show ?case
  proof (cases "load_row row db")
    case (Inl e)
    then have "malformed row" using load_row_malformed [of row db] by blast
    with Inl show ?thesis by simp
  next
    case (Inr db')
    then have "\<not> malformed row" using load_row_malformed [of row db] by auto
    with Inr Cons.IH [of db'] show ?thesis by simp
  qed
qed


lemma networks_for_asn_add_record:
  "networks_for_asn (add_record net asn org cc tree db) a
     = networks_for_asn db a @ (if a = asn then [net] else [])"
  by (auto simp: networks_for_asn_def add_record_def Let_def dom_def split: option.splits)

lemma find_country_add_record:
  "find_country (add_record net asn org cc tree db) c
     = find_country db c @ (if c = cc then [asn] else [])"
  by (auto simp: find_country_def add_record_def Let_def dom_def split: option.splits)

lemma find_asn_add_record:
  assumes "find_asn db a = Some e"
  shows "find_asn (add_record net asn org cc tree db) a
           = Some (e\<lparr>networks := networks e @ (if a = asn then [net] else [])\<rparr>)"
  using assms by (auto simp: find_asn_def add_record_def Let_def dom_def split: option.splits)

lemma networks_for_asn_seed:
  "seed_private db = Inr db' \<Longrightarrow>
   networks_for_asn db' a = (if a = 0 then private_networks else networks_for_asn db a)"
  by (auto simp: seed_private_eq networks_for_asn_def)

lemma observed_Cons:
  "observed (row # rows) asn = (if row_asn row = Some asn then [hd row] else []) @ observed rows asn"
  by (simp add: observed_def)

lemma row_asn_header: "is_header row \<Longrightarrow> row_asn row = None"
  by (simp add: row_asn_def)

lemma load_row_networks:
  assumes "load_row row db = Inr db'"
  shows "networks_for_asn db' a =
           (if is_header row then (if a = 0 then private_networks else networks_for_asn db a)
            else networks_for_asn db a @ (if row_asn row = Some a then [hd row] else []))"
proof (cases "is_header row")
  case True
  with assms show ?thesis by (simp add: load_row_header networks_for_asn_seed)
next
  case False
  from load_row_data [OF False assms] obtain net field org cc rest asn n where
    row: "row = net # field # org # cc # rest" and asn: "py_int field = Some asn"
    and db': "db' = add_record net asn org cc (insert_walk (prefix_of n) (net, asn, cc) (db_network db)) db"
    by blast
  from False row asn have "row_asn row = Some asn" by (simp add: row_asn_def index_def)
  with False row show ?thesis by (auto simp: db' networks_for_asn_add_record)
qed

text \<open>Over rows that hold no header, or for an ASN other than 0, the list of an ASN grows
  by the networks observed for it.\<close>

lemma load_rows_networks:
  assumes "load_rows rows db = (db', None)"
    and "a \<noteq> 0 \<or> (\<forall>row\<in>set rows. \<not> is_header row)"
  shows "networks_for_asn db' a = networks_for_asn db a @ observed rows a"
  using assms
proof (induction rows arbitrary: db)
  case Nil
  then show ?case by (simp add: observed_def)
next
  case (Cons row rows)
  from Cons.prems(1) obtain db1 where r: "load_row row db = Inr db1"
    and rest: "load_rows rows db1 = (db', None)"
    by (auto split: sum.splits)
  from Cons.prems(2) have c: "a \<noteq> 0 \<or> (\<forall>row\<in>set rows. \<not> is_header row)" by auto
  from Cons.prems(2) have h: "is_header row \<Longrightarrow> a \<noteq> 0" by auto
  have "networks_for_asn db1 a = networks_for_asn db a @ (if row_asn row = Some a then [hd row] else [])"
    using load_row_networks [OF r, of a] h by (auto simp: row_asn_header)
  with Cons.IH [OF rest c] show ?case by (simp add: observed_Cons)
qed

lemma load_database_completed:
  assumes "load_database rows self = (self', None)"
  shows "\<exists>db. database self' = Some db \<and> load_rows rows empty_database = (db, None)"
  using assms by (auto simp: load_database_def split: prod.splits option.splits)




lemma networks_after_load:
  assumes l: "load_rows rows empty_database = (db, None)"
    and layout: "asn = 0 \<longrightarrow> (\<forall>row\<in>set (tl rows). \<not> is_header row)"
  shows "networks_for_asn db asn =
           (if asn = 0 \<and> rows \<noteq> [] \<and> is_header (hd rows) then private_networks else [])
           @ observed rows asn"
proof -
  have e: "networks_for_asn empty_database a = []" for a
    by (simp add: networks_for_asn_def empty_database_def)
  show ?thesis
  proof (cases "asn = 0 \<and> rows \<noteq> [] \<and> is_header (hd rows)")
    case True
    then obtain row rest where rows: "rows = row # rest" and h: "is_header row"
      by (cases rows) auto
    from l rows obtain db1 where r: "load_row row empty_database = Inr db1"
      and rest: "load_rows rest db1 = (db, None)"
      by (auto split: sum.splits)
    from layout True rows have nh: "asn \<noteq> 0 \<or> (\<forall>row\<in>set rest. \<not> is_header row)" by simp
    from load_row_networks [OF r, of asn] h True
    have "networks_for_asn db1 asn = private_networks" by simp
    with load_rows_networks [OF rest nh] True rows h show ?thesis
      by (simp add: observed_Cons row_asn_header)
  next
    case False
    have nh: "asn \<noteq> 0 \<or> (\<forall>row\<in>set rows. \<not> is_header row)"
    proof (cases "asn = 0")
      case True
      with layout False show ?thesis by (cases rows) auto
    qed simp
    from load_rows_networks [OF l nh] have "networks_for_asn db asn = observed rows asn"
      by (simp add: e)
    with False show ?thesis by auto
  qed
qed

lemma load_database_snd: "snd (load_database rows self) = snd (load_rows rows empty_database)"
  by (simp add: load_database_def split: prod.splits option.splits)

lemma load_database_database:
  "database (fst (load_database rows self)) = Some (fst (load_rows rows empty_database))"
  by (simp add: load_database_def split: prod.splits option.splits)

lemma load_database_pickle_file:
  "pickle_file (fst (load_database rows self)) =
     (if snd (load_rows rows empty_database) = None \<and> use_pickle self
      then Some (fst (load_rows rows empty_database)) else pickle_file self)"
  by (simp add: load_database_def split: prod.splits option.splits)

text \<open>The rows of the small tables.\<close>

lemma header_row_is_header: "is_header header_row"
  by (simp add: header_row_def is_header_def index_def)

lemma example_rows_well_formed: "\<forall>row\<in>set example_rows. \<not> malformed row"
  by (simp add: example_rows_def data_rows_def header_row_def malformed_def is_header_def
      index_def py_int_100 py_int_200 ip_network_1_2_3_24 ip_network_1_2_3_128_25)

lemma example_rows_layout: "\<forall>row\<in>set (tl example_rows). \<not> is_header row"
  by (simp add: example_rows_def data_rows_def is_header_def index_def)

lemma example_rows_complete: "snd (load_database example_rows self) = None"
  by (simp add: load_database_snd load_rows_complete example_rows_well_formed)

lemma observed_example_rows:
  "observed example_rows 100 = [''1.2.3.0/24'', ''1.2.3.0/24'']"
  "observed example_rows 200 = [''1.2.3.128/25'']"
  "observed example_rows 0 = []"
  "observed example_rows 7 = []"
  by (simp_all add: observed_def example_rows_def data_rows_def header_row_def row_asn_def
      is_header_def index_def py_int_100 py_int_200)



section \<open>The seeded entry\<close>

lemma seeded_seed_private:
  assumes "seed_private db = Inr db'"
  shows "seeded db'"
  using assms by (auto simp: seed_private_eq seeded_def find_asn_def find_country_def)

lemma seeded_add_record:
  assumes "seeded db"
  shows "seeded (add_record net asn org cc tree db)"
proof -
  from assms obtain e where e: "find_asn db 0 = Some e"
    and n: "name e = ''Locally routed network''" "country e = ''*''"
    and p: "prefix private_networks (networks e)"
    and c: "0 \<in> set (find_country db ''*'')"
    by (auto simp: seeded_def split: option.splits)
  from p have "prefix private_networks (networks e @ (if 0 = asn then [net] else []))"
    by (simp add: prefix_prefix)
  with n c show ?thesis
    by (simp add: seeded_def find_asn_add_record [OF e] find_country_add_record)
qed

lemma seeded_load_row:
  assumes "load_row row db = Inr db'" and "seeded db \<or> is_header row"
  shows "seeded db'"
proof (cases "is_header row")
  case True
  with assms(1) show ?thesis by (simp add: load_row_header seeded_seed_private)
next
  case False
  from load_row_data [OF False assms(1)] assms(2) False show ?thesis
    by (auto simp: seeded_add_record)
qed

lemma seeded_load_rows:
  assumes "load_rows rows db = (db', None)" and "seeded db \<or> (\<exists>row\<in>set rows. is_header row)"
  shows "seeded db'"
  using assms
proof (induction rows arbitrary: db)
  case Nil
  then show ?case by simp
next
  case (Cons row rows)
  from Cons.prems(1) obtain db1 where r: "load_row row db = Inr db1"
    and rest: "load_rows rows db1 = (db', None)"
    by (auto split: sum.splits)
  show ?case
  proof (cases "seeded db \<or> is_header row")
    case True
    from seeded_load_row [OF r True] Cons.IH [OF rest] show ?thesis by blast
  next
    case False
    with Cons.prems(2) have "\<exists>row\<in>set rows. is_header row" by auto
    with Cons.IH [OF rest] show ?thesis by blast
  qed
qed

lemma private_networks_members:
  "''10.0.0.0/8'' \<in> set private_networks" "''127.0.0.0/8'' \<in> set private_networks"
  by (simp_all add: private_networks_def)

text \<open>
  C2.  When the rows hold a header row (a row whose first field is \<open>network\<close>) and the
  load completes, \<open>find_asn 0\<close> returns the entry named \<open>Locally routed network\<close> of the
  country \<open>*\<close>, whose networks begin with the seven private ranges and so contain
  \<open>10.0.0.0/8\<close> and \<open>127.0.0.0/8\<close>, and \<open>find_country '*'\<close> contains 0.
\<close>

theorem seeded_after_header:
  assumes "load_database rows self = (self', None)" and "\<exists>row\<in>set rows. is_header row"
  shows "\<exists>db e. database self' = Some db \<and> find_asn db 0 = Some e \<and>
           name e = ''Locally routed network'' \<and> country e = ''*'' \<and>
           prefix private_networks (networks e) \<and>
           ''10.0.0.0/8'' \<in> set (networks e) \<and> ''127.0.0.0/8'' \<in> set (networks e) \<and>
           0 \<in> set (find_country db ''*'')"
proof -
  from load_database_completed [OF assms(1)] obtain db where db: "database self' = Some db"
    and l: "load_rows rows empty_database = (db, None)" by blast
  from seeded_load_rows [OF l] assms(2) have "seeded db" by blast
  then obtain e where e: "find_asn db 0 = Some e"
    "name e = ''Locally routed network''" "country e = ''*''"
    and p: "prefix private_networks (networks e)"
    and c: "0 \<in> set (find_country db ''*'')"
    by (auto simp: seeded_def split: option.splits)
  from p have "set private_networks \<subseteq> set (networks e)" by (rule set_mono_prefix)
  with private_networks_members
  have "''10.0.0.0/8'' \<in> set (networks e)" "''127.0.0.0/8'' \<in> set (networks e)" by auto
  with db e p c show ?thesis by blast
qed

theorem seeded_after_header_witness:
  "load_database example_rows new_object = (fst (load_database example_rows new_object), None) \<and>
   is_header header_row \<and> header_row \<in> set example_rows \<and>
   (\<exists>db e. database (fst (load_database example_rows new_object)) = Some db \<and>
      find_asn db 0 = Some e \<and>
      name e = ''Locally routed network'' \<and> country e = ''*'' \<and>
      prefix private_networks (networks e) \<and>
      ''10.0.0.0/8'' \<in> set (networks e) \<and> ''127.0.0.0/8'' \<in> set (networks e) \<and>
      0 \<in> set (find_country db ''*''))"
proof -
  let ?self = "fst (load_database example_rows new_object)"
  have l: "load_database example_rows new_object = (?self, None)"
    using example_rows_complete [of new_object] by (simp add: prod_eq_iff)
  have m: "header_row \<in> set example_rows" by (simp add: example_rows_def)
  with header_row_is_header have h: "\<exists>row\<in>set example_rows. is_header row" by blast
  from seeded_after_header [OF l h] l m header_row_is_header show ?thesis by simp
qed

text \<open>
  As the claim is worded, the entry is there whatever the rows are, with or without a
  header row.  The private ranges are seeded when the loop meets the header row, so the
  load of the data rows alone completes and leaves ASN 0 and the country \<open>*\<close> unknown.
\<close>

theorem seeded_after_header_counterexample:
  "snd (load_database data_rows new_object) = None \<and>
   query find_asn (fst (load_database data_rows new_object)) 0 = Inr None \<and>
   query find_country (fst (load_database data_rows new_object)) ''*'' = Inr []"
proof -
  have wf: "\<forall>row\<in>set data_rows. \<not> malformed row"
    using example_rows_well_formed by (simp add: example_rows_def)
  then have c: "snd (load_rows data_rows empty_database) = None"
    by (simp add: load_rows_complete)
  have a: "find_asn (fst (load_rows data_rows empty_database)) 0 = None"
    by (simp add: data_rows_def load_row_def index_def py_int_100 py_int_200 insert_net_def
        canonical_def ip_network_1_2_3_24 ip_network_1_2_3_128_25 add_record_def
        empty_database_def find_asn_def)
  have b: "find_country (fst (load_rows data_rows empty_database)) ''*'' = []"
    by (simp add: data_rows_def load_row_def index_def py_int_100 py_int_200 insert_net_def
        canonical_def ip_network_1_2_3_24 ip_network_1_2_3_128_25 add_record_def
        empty_database_def find_country_def)
  from a b c show ?thesis
    by (simp add: load_database_snd query_def load_database_database)
qed

section \<open>A load that fails\<close>








section \<open>Specifiers\<close>

lemma expand_step:
  "expand db (s # ss) res =
     (if startswith s ''ASN:''
      then (case asn_of s of
              None \<Rightarrow> Inl (case index (str_split (CHR '':'') s) 1 of Inl e \<Rightarrow> e | Inr f \<Rightarrow> ValueError)
            | Some asn \<Rightarrow> expand db ss (res @ networks_for_asn db asn))
      else expand db ss (res @ [s]))"
  by (auto simp: asn_of_def split: sum.splits option.splits)

lemma expand_good:
  assumes "\<forall>s\<in>set ss. startswith s ''ASN:'' \<longrightarrow> asn_of s \<noteq> None"
  shows "expand db ss res = Inr (res @ concat (map (expansion db) ss))"
  using assms
proof (induction ss arbitrary: res)
  case Nil
  then show ?case by simp
next
  case (Cons s ss)
  then show ?case
    by (auto simp: expand_step expansion_def simp del: expand.simps split: option.splits)
qed


lemmas asn_of_defs = asn_of_def index_def startswith_def

lemma asn_of_ASN_0: "asn_of ''ASN:0'' = Some 0"
  by (simp add: asn_of_defs py_int_0)

lemma asn_of_ASN_100: "asn_of ''ASN:100'' = Some 100"
  by (simp add: asn_of_defs py_int_100)




text \<open>After a load that met a header row, the list of ASN 0 begins with the private ranges,
  and it is the private ranges when no data row is attributed to ASN 0.\<close>

lemma private_kept:
  assumes "load_rows rows db = (db', None)" and "observed rows 0 = []"
    and "networks_for_asn db 0 = private_networks \<or> (\<exists>row\<in>set rows. is_header row)"
  shows "networks_for_asn db' 0 = private_networks"
  using assms
proof (induction rows arbitrary: db)
  case Nil
  then show ?case by simp
next
  case (Cons row rows)
  from Cons.prems(1) obtain db1 where r: "load_row row db = Inr db1"
    and rest: "load_rows rows db1 = (db', None)"
    by (auto split: sum.splits)
  from Cons.prems(2) have o: "is_header row \<or> row_asn row \<noteq> Some 0" "observed rows 0 = []"
    by (auto simp: observed_Cons split: if_splits)
  show ?case
  proof (cases "is_header row")
    case True
    with load_row_networks [OF r, of 0] have "networks_for_asn db1 0 = private_networks" by simp
    with Cons.IH [OF rest o(2)] show ?thesis by blast
  next
    case False
    with load_row_networks [OF r, of 0] o(1)
    have "networks_for_asn db1 0 = networks_for_asn db 0" by simp
    with Cons.prems(3) False
    have "networks_for_asn db1 0 = private_networks \<or> (\<exists>row\<in>set rows. is_header row)" by auto
    with Cons.IH [OF rest o(2)] show ?thesis by blast
  qed
qed

lemma seeded_networks: "seeded db \<Longrightarrow> prefix private_networks (networks_for_asn db 0)"
  by (auto simp: seeded_def networks_for_asn_def find_asn_def split: option.splits)

text \<open>
  C6.  On a list whose items beginning with \<open>ASN:\<close> all give an integer ASN,
  \<open>get_networks\<close> returns, item by item and in order, the networks of the ASN for such an
  item and the item itself for any other.  For \<open>["ASN:0", "8.8.8.8"]\<close> that is the list of
  ASN 0 and then \<open>8.8.8.8\<close>; after a completed load that met a header row the list of ASN 0
  begins with the private ranges, and it is exactly the private ranges when no data row
  is attributed to ASN 0.
\<close>

theorem get_networks_expands:
  "((\<forall>s\<in>set specs. startswith s ''ASN:'' \<longrightarrow> asn_of s \<noteq> None) \<longrightarrow>
      get_networks db (Several specs) = concat (map (expansion db) specs)) \<and>
   get_networks db (Several [''ASN:0'', ''8.8.8.8'']) = networks_for_asn db 0 @ [''8.8.8.8''] \<and>
   (load_database rows self = (self', None) \<and> (\<exists>row\<in>set rows. is_header row) \<longrightarrow>
      (\<exists>db'. database self' = Some db' \<and>
         prefix private_networks (networks_for_asn db' 0) \<and>
         (observed rows 0 = [] \<longrightarrow>
            get_networks db' (Several [''ASN:0'', ''8.8.8.8'']) = private_networks @ [''8.8.8.8''])))"
proof (intro conjI impI)
  assume "\<forall>s\<in>set specs. startswith s ''ASN:'' \<longrightarrow> asn_of s \<noteq> None"
  from expand_good [OF this, of db "[]"]
  show "get_networks db (Several specs) = concat (map (expansion db) specs)"
    by (simp add: get_networks_def del: expand.simps)
next
  have g: "\<forall>s\<in>set [''ASN:0'', ''8.8.8.8'']. startswith s ''ASN:'' \<longrightarrow> asn_of s \<noteq> None"
    by (simp add: asn_of_ASN_0 startswith_def)
  have e: "expand d [''ASN:0'', ''8.8.8.8''] [] = Inr (networks_for_asn d 0 @ [''8.8.8.8''])" for d
    unfolding expand_good [OF g, of d "[]"]
    by (simp add: expansion_def asn_of_ASN_0 startswith_def)
  show two: "get_networks d (Several [''ASN:0'', ''8.8.8.8'']) = networks_for_asn d 0 @ [''8.8.8.8'']"
    for d
    by (simp add: get_networks_def e del: expand.simps)
  assume a: "load_database rows self = (self', None) \<and> (\<exists>row\<in>set rows. is_header row)"
  with load_database_completed obtain db' where db': "database self' = Some db'"
    and l: "load_rows rows empty_database = (db', None)" by blast
  from seeded_load_rows [OF l] a have "seeded db'" by blast
  then have p: "prefix private_networks (networks_for_asn db' 0)" by (rule seeded_networks)
  have "get_networks db' (Several [''ASN:0'', ''8.8.8.8'']) = private_networks @ [''8.8.8.8'']"
    if "observed rows 0 = []"
    using private_kept [OF l that] a two [of db'] by simp
  with db' p
  show "\<exists>db'. database self' = Some db' \<and>
         prefix private_networks (networks_for_asn db' 0) \<and>
         (observed rows 0 = [] \<longrightarrow>
            get_networks db' (Several [''ASN:0'', ''8.8.8.8'']) = private_networks @ [''8.8.8.8''])"
    by blast
qed

theorem get_networks_expands_witness:
  "startswith ''ASN:100'' ''ASN:'' \<and> asn_of ''ASN:100'' = Some 100 \<and>
   startswith ''ASN:0'' ''ASN:'' \<and> asn_of ''ASN:0'' = Some 0 \<and>
   \<not> startswith ''8.8.8.8'' ''ASN:'' \<and>
   load_database example_rows new_object = (example_object, None) \<and>
   is_header header_row \<and> header_row \<in> set example_rows \<and> observed example_rows 0 = [] \<and>
   (\<exists>db. database example_object = Some db \<and>
         get_networks db (Several [''ASN:100'', ''8.8.8.8'', ''ASN:0''])
           = [''1.2.3.0/24'', ''1.2.3.0/24'', ''8.8.8.8''] @ private_networks \<and>
         get_networks db (Several [''ASN:0'', ''8.8.8.8'']) = private_networks @ [''8.8.8.8''])"
proof -
  have sw: "startswith ''ASN:100'' ''ASN:''" "startswith ''ASN:0'' ''ASN:''"
    "\<not> startswith ''8.8.8.8'' ''ASN:''"
    by (simp_all add: startswith_def)
  have l: "load_database example_rows new_object = (example_object, None)"
    using example_rows_complete [of new_object] by (simp add: example_object_def prod_eq_iff)
  have m: "header_row \<in> set example_rows" by (simp add: example_rows_def)
  with header_row_is_header have h: "\<exists>row\<in>set example_rows. is_header row" by blast
  from get_networks_expands [of "[]" empty_database example_rows new_object example_object] l h
  obtain db where db: "database example_object = Some db"
    and two: "get_networks db (Several [''ASN:0'', ''8.8.8.8'']) = private_networks @ [''8.8.8.8'']"
    by (auto simp: observed_example_rows)
  from load_database_completed [OF l] db
  have lr: "load_rows example_rows empty_database = (db, None)" by auto
  have n100: "networks_for_asn db 100 = [''1.2.3.0/24'', ''1.2.3.0/24'']"
    using networks_after_load [OF lr, of 100] by (simp add: observed_example_rows)
  have hd: "example_rows \<noteq> [] \<and> is_header (hd example_rows)"
    by (simp add: example_rows_def header_row_is_header)
  have n0: "networks_for_asn db 0 = private_networks"
    using networks_after_load [OF lr, of 0] example_rows_layout hd
    by (simp add: observed_example_rows)
  have g: "\<forall>s\<in>set [''ASN:100'', ''8.8.8.8'', ''ASN:0'']. startswith s ''ASN:'' \<longrightarrow> asn_of s \<noteq> None"
    using sw by (simp add: asn_of_ASN_0 asn_of_ASN_100)
  with get_networks_expands [of "[''ASN:100'', ''8.8.8.8'', ''ASN:0'']" db "[]" new_object new_object]
  have "get_networks db (Several [''ASN:100'', ''8.8.8.8'', ''ASN:0''])
          = concat (map (expansion db) [''ASN:100'', ''8.8.8.8'', ''ASN:0''])"
    by blast
  also have "\<dots> = [''1.2.3.0/24'', ''1.2.3.0/24'', ''8.8.8.8''] @ private_networks"
    using sw by (simp add: expansion_def asn_of_ASN_0 asn_of_ASN_100 n100 n0)
  finally show ?thesis
    using sw l m header_row_is_header db two
    by (simp add: asn_of_ASN_0 asn_of_ASN_100 observed_example_rows)
qed



section \<open>The last node of a search\<close>

lemma bits_eq_iff: "bits w x = bits w y \<longleftrightarrow> x mod 2 ^ w = y mod 2 ^ w"
proof (induction w arbitrary: x y)
  case 0
  then show ?case by simp
next
  case (Suc w)
  have m: "z mod 2 ^ Suc w = 2 * (z div 2 mod 2 ^ w) + z mod 2" for z :: nat
    by (simp add: mod_mult2_eq)
  have p: "odd x = odd y \<longleftrightarrow> x mod 2 = y mod 2" by presburger
  have c: "(a = a' \<and> x mod 2 = y mod 2) = (2 * a + x mod 2 = 2 * a' + y mod 2)" for a a' :: nat
    by presburger
  have "bits (Suc w) x = bits (Suc w) y \<longleftrightarrow>
          bits w (x div 2) = bits w (y div 2) \<and> odd x = odd y"
    by simp
  also have "\<dots> \<longleftrightarrow> x div 2 mod 2 ^ w = y div 2 mod 2 ^ w \<and> x mod 2 = y mod 2"
    by (simp only: Suc.IH p)
  also have "\<dots> \<longleftrightarrow> x mod 2 ^ Suc w = y mod 2 ^ Suc w"
    by (simp only: m c)
  finally show ?case .
qed

lemma take_neq_self: "k < length q \<Longrightarrow> take k q \<noteq> q"
proof
  assume "k < length q" and "take k q = q"
  then have "length (take k q) = length q" by simp
  with \<open>k < length q\<close> show False by simp
qed

text \<open>Containment, in arithmetic.\<close>

lemma contains_iff:
  assumes "prefixlen (embed n) \<le> 128"
  shows "contains n m \<longleftrightarrow>
           prefixlen (embed n) \<le> prefixlen (embed m) \<and>
           network_address (embed m) div 2 ^ (128 - prefixlen (embed n)) mod 2 ^ prefixlen (embed n) =
           network_address (embed n) div 2 ^ (128 - prefixlen (embed n)) mod 2 ^ prefixlen (embed n)"
  using assms by (simp add: contains_def take_bits_128 bits_eq_iff)

lemma take_prefix_of_contains:
  assumes "take k (prefix_of m) = prefix_of n" and "prefixlen (embed n) \<le> 128"
  shows "contains n m"
proof (rule prefix_contains [OF _ assms(2)])
  from assms(1) show "prefix (prefix_of n) (prefix_of m)"
    using take_is_prefix [of k "prefix_of m"] by simp
qed

text \<open>The source's way to the mapped network, through the text, on \<open>10.0.0.0/8\<close>.\<close>

lemma embed_by_text:
  "ip_network ''::ffff:10.0.0.0/104'' = Some (embed (IPv4Network 167772160 8))"
  by (simp add: parse_defs)

text \<open>None of the other private ranges contains \<open>::1\<close>.\<close>

lemma loopback6_apart:
  "\<not> contains (IPv4Network 167772160 8) (IPv6Network 1 128)"
  "\<not> contains (IPv4Network 2130706432 8) (IPv6Network 1 128)"
  "\<not> contains (IPv4Network 2886729728 12) (IPv6Network 1 128)"
  "\<not> contains (IPv4Network 3232235520 16) (IPv6Network 1 128)"
  "\<not> contains (IPv6Network 334965454937798799971759379190646833152 7) (IPv6Network 1 128)"
  "\<not> contains (IPv6Network 338288524927261089654018896841347694592 10) (IPv6Network 1 128)"
  by (simp_all add: contains_iff)

lemma seeded_tree_loopback6:
  "search_walk (prefix_of (IPv6Network 1 128)) (seeded_tree empty_node) None = None"
proof (rule search_walk_none)
  let ?a = "prefix_of (IPv6Network 1 128)"
  fix k assume k: "k < length ?a"
  then have self: "take k ?a \<noteq> ?a" by (rule take_neq_self)
  have other: "take k ?a \<noteq> prefix_of n" if "\<not> contains n (IPv6Network 1 128)"
    and "prefixlen (embed n) \<le> 128" for n
    using that take_prefix_of_contains [of k "IPv6Network 1 128" n] by blast
  have others: "take k ?a \<noteq> prefix_of (IPv4Network 167772160 8)"
    "take k ?a \<noteq> prefix_of (IPv4Network 2130706432 8)"
    "take k ?a \<noteq> prefix_of (IPv4Network 2886729728 12)"
    "take k ?a \<noteq> prefix_of (IPv4Network 3232235520 16)"
    "take k ?a \<noteq> prefix_of (IPv6Network 334965454937798799971759379190646833152 7)"
    "take k ?a \<noteq> prefix_of (IPv6Network 338288524927261089654018896841347694592 10)"
    by (rule other, rule loopback6_apart, simp)+
  show "data_at (take k ?a) (seeded_tree empty_node) = None"
    unfolding seeded_tree_def
    by (simp only: data_at_insert_walk data_at_empty self others if_False)
qed

lemma load_header_only:
  "load_rows [header_row] empty_database =
     (\<lparr>db_network = seeded_tree empty_node,
       db_asn = [0 \<mapsto> \<lparr>name = ''Locally routed network'', country = ''*'', networks = private_networks\<rparr>],
       db_country = [''*'' \<mapsto> [0]]\<rparr>, None)"
  by (simp add: load_row_header [OF header_row_is_header] seed_private_eq empty_database_def)

text \<open>
  C1.  The claim is that a search examines every node on its path, the last one included,
  so that a record attached at the depth of the query (a \<open>/128\<close> or \<open>/32\<close> entry looked up by
  its own address) is found.  The loop examines a node only before it follows the next
  digit and ends with the digits, so the node reached last is never examined: with
  \<open>::1/128\<close> inserted the search for \<open>::1\<close> returns nothing, and likewise for \<open>8.8.8.8/32\<close>
  and \<open>8.8.8.8\<close>.  The loader itself seeds \<open>::1/128\<close>: after the load of a table that is
  only the header row, \<open>find_network\<close> of \<open>::1\<close> returns nothing.
\<close>

theorem final_node_not_examined:
  "search_after [(''::1/128'', (''::1/128'', 0, ''*''))] ''::1'' = Inr None \<and>
   search_after [(''8.8.8.8/32'', (''8.8.8.8/32'', 15169, ''US''))] ''8.8.8.8'' = Inr None \<and>
   ''::1/128'' \<in> set private_networks \<and>
   snd (load_database [header_row] new_object) = None \<and>
   query find_network (fst (load_database [header_row] new_object)) ''::1'' = Inr (Inr None)"
proof -
  have "search_after [(''::1/128'', (''::1/128'', 0, ''*''))] ''::1'' = Inr None"
    by (simp only: search_after_single [OF ip_network_loopback6_net ip_network_loopback6]
        search_walk_own_path)
  moreover have "search_after [(''8.8.8.8/32'', (''8.8.8.8/32'', 15169, ''US''))] ''8.8.8.8'' = Inr None"
    by (simp only: search_after_single [OF ip_network_8888_32 ip_network_8888]
        search_walk_own_path)
  moreover have "''::1/128'' \<in> set private_networks" by (simp add: private_networks_def)
  moreover have "snd (load_database [header_row] new_object) = None"
    by (simp add: load_database_snd load_header_only del: load_rows.simps)
  moreover have "query find_network (fst (load_database [header_row] new_object)) ''::1'' = Inr (Inr None)"
    by (simp add: query_def load_database_database load_header_only find_network_def
        search_canonical [OF canonical_ip_network [OF ip_network_loopback6]]
        seeded_tree_loopback6 del: load_rows.simps One_nat_def)
  ultimately show ?thesis by blast
qed

end
